theory Spec2Isabelle
  imports Main "HOL-Library.Word" "HOL-Library.List_Lexorder"
begin

section \<open>Strings\<close>

text \<open>
  A JavaScript string is a sequence of UTF-16 code units. The regular expressions of
  \<^verbatim>\<open>scan.ts\<close> carry no \<^verbatim>\<open>u\<close> flag, so they work on code units as well, and the default
  \<^verbatim>\<open>Array.prototype.sort\<close> compares strings code unit by code unit.
\<close>

type_synonym jschar = "16 word"
type_synonym jsstring = "jschar list"

definition js :: "string \<Rightarrow> jsstring" where
  "js s = map of_char s"

definition QUOTE :: jschar where "QUOTE = 0x27"
definition DQUOTE :: jschar where "DQUOTE = 0x22"
definition BACKTICK :: jschar where "BACKTICK = 0x60"
definition BACKSLASH :: jschar where "BACKSLASH = 0x5C"
definition DOLLAR :: jschar where "DOLLAR = 0x24"
definition NEWLINE :: jschar where "NEWLINE = 0x0A"

section \<open>unescapeString\<close>

text \<open>
  \<^verbatim>\<open>str.replace(/ab/g, r)\<close> for a pattern of two literal characters \<open>a\<close>, \<open>b\<close>: the
  matches are found from left to right, the search resumes behind each match, and the
  replacement text is not scanned again. None of the three replacement strings of
  \<^verbatim>\<open>unescapeString\<close> contains a \<^verbatim>\<open>$\<close>, so each is inserted as it is.
\<close>

fun replace2 :: "jschar \<Rightarrow> jschar \<Rightarrow> jsstring \<Rightarrow> jsstring \<Rightarrow> jsstring" where
  "replace2 a b r (x # y # xs) =
     (if x = a \<and> y = b then r @ replace2 a b r xs else x # replace2 a b r (y # xs))"
| "replace2 a b r xs = xs"

text \<open>
  \<^verbatim>\<open>return str.replace(/\\'/g, "'").replace(/\\"/g, '"').replace(/\\\\/g, "\\");\<close>
\<close>

definition unescapeString :: "jsstring \<Rightarrow> jsstring" where
  "unescapeString str =
     replace2 BACKSLASH BACKSLASH [BACKSLASH]
       (replace2 BACKSLASH DQUOTE [DQUOTE]
         (replace2 BACKSLASH QUOTE [QUOTE] str))"

text \<open>
  The reference the specification compares with: one scan from left to right that
  resolves each of the escape sequences backslash-quote, backslash-double-quote and
  backslash-backslash to its second character and copies every other character.
\<close>

fun unescape_scan :: "jsstring \<Rightarrow> jsstring" where
  "unescape_scan (x # y # xs) =
     (if x = BACKSLASH \<and> (y = QUOTE \<or> y = DQUOTE \<or> y = BACKSLASH)
      then y # unescape_scan xs else x # unescape_scan (y # xs))"
| "unescape_scan xs = xs"

section \<open>Regular expressions\<close>

text \<open>
  The fragment of ECMAScript regular expressions that \<^verbatim>\<open>CALL_PATTERNS\<close> uses.
  \<open>Dot\<close> is \<^verbatim>\<open>.\<close>, \<open>Space\<close> is \<^verbatim>\<open>\s\<close>, \<open>OneOf\<close> and \<open>NoneOf\<close> are the classes
  \<^verbatim>\<open>[...]\<close> and \<^verbatim>\<open>[^...]\<close>, \<open>Star\<close> is the greedy \<^verbatim>\<open>*\<close>, \<open>Group n\<close> is the \<open>n\<close>-th capturing
  group, \<open>Backref n\<close> is \<^verbatim>\<open>\n\<close> and \<open>NegLook\<close> is \<^verbatim>\<open>(?!...)\<close>.
\<close>

datatype regex =
    Eps
  | Chr jschar
  | Dot
  | Space
  | OneOf "jschar list"
  | NoneOf "jschar list"
  | Seq regex regex
  | Alt regex regex
  | Star regex
  | Group nat regex
  | Backref nat
  | NegLook regex

text \<open>The greedy \<^verbatim>\<open>+\<close>: one mandatory iteration, then \<^verbatim>\<open>*\<close>.\<close>

definition Plus :: "regex \<Rightarrow> regex" where
  "Plus r = Seq r (Star r)"

definition seqs :: "regex list \<Rightarrow> regex" where
  "seqs rs = foldr Seq rs Eps"

definition lit :: "string \<Rightarrow> regex" where
  "lit s = seqs (map (\<lambda>c. Chr (of_char c)) s)"

text \<open>Line terminators (not matched by \<^verbatim>\<open>.\<close>) and white space (\<^verbatim>\<open>\s\<close>).\<close>

definition is_line_terminator :: "jschar \<Rightarrow> bool" where
  "is_line_terminator c \<longleftrightarrow> c \<in> set [0x0A, 0x0D, 0x2028, 0x2029]"

definition is_space :: "jschar \<Rightarrow> bool" where
  "is_space c \<longleftrightarrow>
     c \<in> set [0x09, 0x0A, 0x0B, 0x0C, 0x0D, 0x20, 0xA0, 0x1680,
              0x2000, 0x2001, 0x2002, 0x2003, 0x2004, 0x2005, 0x2006, 0x2007,
              0x2008, 0x2009, 0x200A, 0x2028, 0x2029, 0x202F, 0x205F, 0x3000, 0xFEFF]"

text \<open>
  A matcher state: the input that is left, and the captures made so far.
\<close>

record mstate =
  rest :: jsstring
  caps :: "nat \<rightharpoonup> jsstring"

text \<open>One character of the input, accepted by a predicate.\<close>

definition step_char :: "(jschar \<Rightarrow> bool) \<Rightarrow> mstate \<Rightarrow> mstate list" where
  "step_char p s = (case rest s of [] \<Rightarrow> [] | x # xs \<Rightarrow> if p x then [s\<lparr>rest := xs\<rparr>] else [])"

text \<open>
  The backtracking matcher, as the list of all ways a pattern matches at the start of
  the input, in the order in which backtracking tries them: the head of the list is the
  match that the engine returns. An iteration of \<open>Star\<close> that consumes nothing is
  rejected, as in ECMAScript. A back reference to a group that has captured nothing
  matches the empty string. No group of \<^verbatim>\<open>CALL_PATTERNS\<close> stands inside a repetition, so
  the reset of captures at the start of an iteration has no counterpart here.
\<close>

function (sequential) ms :: "regex \<Rightarrow> mstate \<Rightarrow> mstate list" where
  "ms Eps s = [s]"
| "ms (Chr c) s = step_char (\<lambda>x. x = c) s"
| "ms Dot s = step_char (\<lambda>x. \<not> is_line_terminator x) s"
| "ms Space s = step_char is_space s"
| "ms (OneOf cs) s = step_char (\<lambda>x. x \<in> set cs) s"
| "ms (NoneOf cs) s = step_char (\<lambda>x. x \<notin> set cs) s"
| "ms (Seq a b) s = concat (map (ms b) (ms a s))"
| "ms (Alt a b) s = ms a s @ ms b s"
| "ms (Star r) s =
     concat (map (\<lambda>s'. if length (rest s') < length (rest s) then ms (Star r) s' else [])
                 (ms r s)) @ [s]"
| "ms (Group n r) s =
     map (\<lambda>s'. s'\<lparr>caps := (caps s')(n \<mapsto> take (length (rest s) - length (rest s')) (rest s))\<rparr>)
         (ms r s)"
| "ms (Backref n) s =
     (case caps s n of
        None \<Rightarrow> [s]
      | Some w \<Rightarrow> if take (length w) (rest s) = w
                  then [s\<lparr>rest := drop (length w) (rest s)\<rparr>] else [])"
| "ms (NegLook r) s = (if ms r s = [] then [s] else [])"
  by pat_completeness auto
termination
  by (relation "inv_image (less_than <*lex*> less_than) (\<lambda>(r, s). (size r, length (rest s)))")
     auto

text \<open>
  \<^verbatim>\<open>re.exec(source)\<close> for a global pattern, on the input from \<^verbatim>\<open>lastIndex\<close> on: the
  first position at which the pattern matches, or \<open>None\<close> (\<^verbatim>\<open>null\<close>). The state returned
  holds the input behind the match (the new \<^verbatim>\<open>lastIndex\<close>) and the captures.
\<close>

fun exec :: "regex \<Rightarrow> jsstring \<Rightarrow> mstate option" where
  "exec re [] =
     (case ms re \<lparr>rest = [], caps = Map.empty\<rparr> of [] \<Rightarrow> None | m # _ \<Rightarrow> Some m)"
| "exec re (x # xs) =
     (case ms re \<lparr>rest = x # xs, caps = Map.empty\<rparr> of [] \<Rightarrow> exec re xs | m # _ \<Rightarrow> Some m)"

section \<open>extractKeys\<close>

text \<open>
  \<^verbatim>\<open>
  /(?:__|trans)\(\s*(['"`])((?:(?!\1|\\).|\\.)+)\1\s*\)/g,
  /@lang\(\s*(['"`])((?:(?!\1|\\).|\\.)+)\1\s*\)/g,
  /(?:__|trans)\(\s*`([^`$]+)`\s*\)/g
  \<close>
\<close>

definition quoted_arg :: "regex list" where
  "quoted_arg =
     [Chr 0x28, Star Space,
      Group 1 (OneOf [QUOTE, DQUOTE, BACKTICK]),
      Group 2 (Plus (Alt (Seq (NegLook (Alt (Backref 1) (Chr BACKSLASH))) Dot)
                         (Seq (Chr BACKSLASH) Dot))),
      Backref 1, Star Space, Chr 0x29]"

definition CALL_PATTERNS :: "regex list" where
  "CALL_PATTERNS =
     [seqs (Alt (lit ''__'') (lit ''trans'') # quoted_arg),
      seqs (lit ''@lang'' # quoted_arg),
      seqs [Alt (lit ''__'') (lit ''trans''), Chr 0x28, Star Space,
            Chr BACKTICK, Group 1 (Plus (NoneOf [BACKTICK, DOLLAR])), Chr BACKTICK,
            Star Space, Chr 0x29]]"

text \<open>
  A \<^verbatim>\<open>Set<string>\<close> keeps its elements in the order of their first insertion, which is
  the order in which a \<^verbatim>\<open>for ... of\<close> loop visits them: a list without repetitions.
\<close>

definition set_add :: "jsstring list \<Rightarrow> jsstring \<Rightarrow> jsstring list" where
  "set_add keys k = (if k \<in> set keys then keys else keys @ [k])"

text \<open>
  \<^verbatim>\<open>
  const key = (m[2] ?? m[1]) as string;
  if (key && !key.includes("\n")) keys.add(unescapeString(key));
  \<close>
  A group that did not take part in the match, or that the pattern does not have, is
  \<^verbatim>\<open>undefined\<close>; \<^verbatim>\<open>undefined\<close> and the empty string are falsy.
\<close>

definition add_match :: "mstate \<Rightarrow> jsstring list \<Rightarrow> jsstring list" where
  "add_match m keys =
     (case (case caps m 2 of Some k \<Rightarrow> Some k | None \<Rightarrow> caps m 1) of
        None \<Rightarrow> keys
      | Some key \<Rightarrow>
          if key \<noteq> [] \<and> NEWLINE \<notin> set key then set_add keys (unescapeString key) else keys)"

text \<open>
  \<^verbatim>\<open>while ((m = re.exec(source)) !== null) { ... }\<close>
  Each call of \<^verbatim>\<open>exec\<close> starts behind the previous match. A match that does not move
  \<^verbatim>\<open>lastIndex\<close> forward would be found again forever: the loop does not return then,
  which is the value \<open>None\<close>.
\<close>

function exec_loop :: "regex \<Rightarrow> jsstring \<Rightarrow> jsstring list \<Rightarrow> jsstring list option" where
  "exec_loop re src keys =
     (case exec re src of
        None \<Rightarrow> Some keys
      | Some m \<Rightarrow>
          if length (rest m) < length src then exec_loop re (rest m) (add_match m keys)
          else None)"
  by pat_completeness auto
termination
  by (relation "measure (\<lambda>(re, src, keys). length src)") auto

text \<open>\<^verbatim>\<open>for (const re of CALL_PATTERNS) { ... }\<close>, on the set built so far.\<close>

fun for_patterns :: "regex list \<Rightarrow> jsstring \<Rightarrow> jsstring list \<Rightarrow> jsstring list option" where
  "for_patterns [] source keys = Some keys"
| "for_patterns (re # res) source keys =
     (case exec_loop re source keys of
        None \<Rightarrow> None
      | Some keys' \<Rightarrow> for_patterns res source keys')"

definition extractKeys :: "jsstring \<Rightarrow> jsstring list option" where
  "extractKeys source = for_patterns CALL_PATTERNS source []"

text \<open>
  A syntactic check that every match of a pattern consumes at least one character, and
  the property of a key set that no key holds a newline.
\<close>

fun consuming :: "regex \<Rightarrow> bool" where
  "consuming (Chr c) = True"
| "consuming Dot = True"
| "consuming Space = True"
| "consuming (OneOf cs) = True"
| "consuming (NoneOf cs) = True"
| "consuming (Seq a b) = (consuming a \<or> consuming b)"
| "consuming (Alt a b) = (consuming a \<and> consuming b)"
| "consuming (Group n r) = consuming r"
| "consuming r = False"

definition newline_free :: "jsstring list \<Rightarrow> bool" where
  "newline_free keys \<longleftrightarrow> (\<forall>k \<in> set keys. NEWLINE \<notin> set k)"


section \<open>Objects\<close>

text \<open>
  \<^verbatim>\<open>type LocaleMap = Record<string, string>\<close>: an ordinary object with string values,
  made by \<^verbatim>\<open>{}\<close> or by \<^verbatim>\<open>JSON.parse\<close>, so its prototype is \<^verbatim>\<open>Object.prototype\<close>. The
  model is the list of its own properties in the order of their creation.
\<close>

type_synonym LocaleMap = "(jsstring \<times> jsstring) list"

text \<open>The names of the properties of \<^verbatim>\<open>Object.prototype\<close>.\<close>

definition Object_prototype_keys :: "jsstring list" where
  "Object_prototype_keys =
     map js [''constructor'', ''__defineGetter__'', ''__defineSetter__'', ''hasOwnProperty'',
             ''__lookupGetter__'', ''__lookupSetter__'', ''isPrototypeOf'',
             ''propertyIsEnumerable'', ''toString'', ''valueOf'', ''__proto__'',
             ''toLocaleString'']"

text \<open>
  \<^verbatim>\<open>key in dict\<close>: the operator looks for the property in the object and then along
  its prototype chain.
\<close>

definition has_property :: "jsstring \<Rightarrow> LocaleMap \<Rightarrow> bool" where
  "has_property key dict \<longleftrightarrow> key \<in> set (map fst dict) \<or> key \<in> set Object_prototype_keys"

text \<open>
  \<^verbatim>\<open>dict[key] = v\<close> for a string \<open>v\<close>: an own property is overwritten in place. Otherwise
  the property is created behind the others, unless the key is \<^verbatim>\<open>__proto__\<close>: that
  assignment calls the setter inherited from \<^verbatim>\<open>Object.prototype\<close>, which ignores a value
  that is neither an object nor \<^verbatim>\<open>null\<close>.
\<close>

definition set_property :: "LocaleMap \<Rightarrow> jsstring \<Rightarrow> jsstring \<Rightarrow> LocaleMap" where
  "set_property dict key v =
     (if key \<in> set (map fst dict)
      then map (\<lambda>(k, w). if k = key then (k, v) else (k, w)) dict
      else if key = js ''__proto__'' then dict
      else dict @ [(key, v)])"

text \<open>
  The order in which \<^verbatim>\<open>Object.keys\<close> and \<^verbatim>\<open>JSON.stringify\<close> visit the own properties:
  first the keys that are array indices (canonical decimal numerals below \<open>2\<^sup>3\<^sup>2 - 1\<close>)
  in ascending numeric order, then the other keys in the order of their creation.
\<close>

definition is_digit :: "jschar \<Rightarrow> bool" where
  "is_digit c \<longleftrightarrow> 0x30 \<le> c \<and> c \<le> 0x39"

definition digits_value :: "jsstring \<Rightarrow> nat" where
  "digits_value k = foldl (\<lambda>n c. 10 * n + (unat c - 48)) 0 k"

definition is_array_index :: "jsstring \<Rightarrow> bool" where
  "is_array_index k \<longleftrightarrow>
     k \<noteq> [] \<and> list_all is_digit k \<and> (k = [0x30] \<or> hd k \<noteq> 0x30) \<and>
     digits_value k < 2 ^ 32 - 1"

definition Object_keys :: "LocaleMap \<Rightarrow> jsstring list" where
  "Object_keys obj =
     sort_key digits_value (filter is_array_index (map fst obj)) @
     filter (\<lambda>k. \<not> is_array_index k) (map fst obj)"

section \<open>Reconciliation\<close>

datatype placeholder = Copy | Empty

text \<open>The value of a counter: a number, or \<^verbatim>\<open>NaN\<close> after \<^verbatim>\<open>undefined++\<close>.\<close>

datatype jsnumber = Num nat | NaN

datatype error = TypeError

text \<open>
  The variables that the loops of \<^verbatim>\<open>runScan\<close> update: \<^verbatim>\<open>localeData\<close>, \<^verbatim>\<open>addedTotal\<close> and
  \<^verbatim>\<open>perLocaleCounts\<close>. The two objects are used as maps from locale names, and the loops
  read them only at names that were stored before. \<^verbatim>\<open>perLocaleCounts\<close> is built by
  \<^verbatim>\<open>Object.fromEntries\<close>, which defines an own property for every name. \<^verbatim>\<open>localeData\<close> is
  filled by assignments: see \<open>load_all\<close> for the one name at which an object differs from
  the map.
\<close>

record scan_state =
  localeData :: "jsstring \<rightharpoonup> LocaleMap"
  addedTotal :: nat
  perLocaleCounts :: "jsstring \<rightharpoonup> jsnumber"

text \<open>\<^verbatim>\<open>perLocaleCounts[loc]++\<close>\<close>

definition increment :: "jsnumber option \<Rightarrow> jsnumber" where
  "increment v = (case v of Some (Num n) \<Rightarrow> Num (n + 1) | _ \<Rightarrow> NaN)"

text \<open>\<^verbatim>\<open>(loc === master) ? key : (placeholder === "copy" ? key : "")\<close>\<close>

definition new_value :: "jsstring \<Rightarrow> placeholder \<Rightarrow> jsstring \<Rightarrow> jsstring \<Rightarrow> jsstring" where
  "new_value master ph loc key =
     (if loc = master then key else (case ph of Copy \<Rightarrow> key | Empty \<Rightarrow> []))"

text \<open>
  The body of the inner loop:
  \<^verbatim>\<open>
  const dict = localeData[loc];
  if (!(key in dict)) {
      dict[key] = (loc === master) ? key : (placeholder === "copy" ? key : "");
      addedTotal++;
      perLocaleCounts[loc]++;
  }
  \<close>
  \<^verbatim>\<open>key in undefined\<close> throws a \<^verbatim>\<open>TypeError\<close>.
\<close>

definition add_missing ::
  "jsstring \<Rightarrow> placeholder \<Rightarrow> jsstring \<Rightarrow> jsstring \<Rightarrow> scan_state \<Rightarrow> error + scan_state" where
  "add_missing master ph key loc st =
     (case localeData st loc of
        None \<Rightarrow> Inl TypeError
      | Some dict \<Rightarrow>
          if has_property key dict then Inr st
          else Inr (st\<lparr>localeData :=
                          (localeData st)(loc \<mapsto> set_property dict key (new_value master ph loc key)),
                        addedTotal := addedTotal st + 1,
                        perLocaleCounts :=
                          (perLocaleCounts st)(loc \<mapsto> increment (perLocaleCounts st loc))\<rparr>))"

text \<open>\<^verbatim>\<open>for (const loc of locales) { ... }\<close>\<close>

fun for_locales ::
  "jsstring \<Rightarrow> placeholder \<Rightarrow> jsstring \<Rightarrow> jsstring list \<Rightarrow> scan_state \<Rightarrow> error + scan_state" where
  "for_locales master ph key [] st = Inr st"
| "for_locales master ph key (loc # locs) st =
     (case add_missing master ph key loc st of
        Inl e \<Rightarrow> Inl e
      | Inr st' \<Rightarrow> for_locales master ph key locs st')"

text \<open>\<^verbatim>\<open>for (const key of foundKeys) { ... }\<close>\<close>

fun for_keys ::
  "jsstring \<Rightarrow> placeholder \<Rightarrow> jsstring list \<Rightarrow> jsstring list \<Rightarrow> scan_state \<Rightarrow> error + scan_state" where
  "for_keys master ph locales [] st = Inr st"
| "for_keys master ph locales (key # keys) st =
     (case for_locales master ph key locales st of
        Inl e \<Rightarrow> Inl e
      | Inr st' \<Rightarrow> for_keys master ph locales keys st')"

text \<open>
  \<^verbatim>\<open>for (const loc of locales) { localeData[loc] = loadLocaleFile(localesDir, loc); }\<close>
  where \<open>existing loc\<close> is the dictionary that \<^verbatim>\<open>loadLocaleFile\<close> returns for \<open>loc\<close>.

  For every locale name other than \<^verbatim>\<open>__proto__\<close> the assignment creates or overwrites an
  own property of \<^verbatim>\<open>localeData\<close>, and the read \<^verbatim>\<open>localeData[loc]\<close> of the inner loop returns
  it: the object is the map below. The name \<^verbatim>\<open>__proto__\<close> is the exception. Its assignment
  calls the setter inherited from \<^verbatim>\<open>Object.prototype\<close>, which makes the loaded dictionary
  the prototype of \<^verbatim>\<open>localeData\<close> and creates no property, and its read goes along the
  prototype chain: when the loaded dictionary has an own key \<^verbatim>\<open>__proto__\<close>, the read returns
  the string stored there and \<^verbatim>\<open>key in dict\<close> throws a \<^verbatim>\<open>TypeError\<close>. The map does not show
  this, so the theorems that state that reconciliation returns take
  \<open>js ''__proto__'' \<notin> set locales\<close> as a hypothesis.
\<close>

definition load_all :: "(jsstring \<Rightarrow> LocaleMap) \<Rightarrow> jsstring list \<Rightarrow> (jsstring \<rightharpoonup> LocaleMap)" where
  "load_all existing locales = foldl (\<lambda>data loc. data(loc \<mapsto> existing loc)) Map.empty locales"

text \<open>\<^verbatim>\<open>Object.fromEntries(locales.map(l => [l, 0]))\<close>\<close>

definition zero_counts :: "jsstring list \<Rightarrow> (jsstring \<rightharpoonup> jsnumber)" where
  "zero_counts locales = foldl (\<lambda>counts loc. counts(loc \<mapsto> Num 0)) Map.empty locales"

text \<open>
  Reconciliation: the part of \<^verbatim>\<open>runScan\<close> from the loading of the locale files to the end
  of the two loops, for the set \<^verbatim>\<open>foundKeys\<close> in the order of its iteration.
\<close>

definition reconcile ::
  "jsstring list \<Rightarrow> jsstring list \<Rightarrow> jsstring \<Rightarrow> placeholder \<Rightarrow> (jsstring \<Rightarrow> LocaleMap)
     \<Rightarrow> error + scan_state" where
  "reconcile foundKeys locales master ph existing =
     for_keys master ph locales foundKeys
       \<lparr>localeData = load_all existing locales, addedTotal = 0,
        perLocaleCounts = zero_counts locales\<rparr>"

text \<open>
  What the two loops do to one dictionary: the proofs below reduce the loops to it.
\<close>

definition add_key :: "jsstring \<Rightarrow> placeholder \<Rightarrow> jsstring \<Rightarrow> LocaleMap \<Rightarrow> jsstring \<Rightarrow> LocaleMap" where
  "add_key master ph loc dict key =
     (if has_property key dict then dict
      else set_property dict key (new_value master ph loc key))"

text \<open>The dictionaries of a state, as the next run would load them.\<close>

definition dictionaries :: "scan_state \<Rightarrow> jsstring \<Rightarrow> LocaleMap" where
  "dictionaries st loc = (case localeData st loc of None \<Rightarrow> [] | Some dict \<Rightarrow> dict)"

text \<open>
  The state of the loops in terms of the dictionaries \<open>D\<close> reached so far: every listed
  locale has its dictionary, and the counters hold the number of entries added to it.
\<close>

definition state_of :: "jsstring list \<Rightarrow> (jsstring \<Rightarrow> LocaleMap) \<Rightarrow> (jsstring \<Rightarrow> LocaleMap) \<Rightarrow> scan_state" where
  "state_of locales existing D =
     \<lparr>localeData = (\<lambda>l. if l \<in> set locales then Some (D l) else None),
      addedTotal = (\<Sum>l \<in> set locales. length (D l) - length (existing l)),
      perLocaleCounts =
        (\<lambda>l. if l \<in> set locales then Some (Num (length (D l) - length (existing l))) else None)\<rparr>"


text \<open>
  The example of the specification: \<^verbatim>\<open>en = {"a": "Hello"}\<close>, every other dictionary empty.
\<close>

definition example_existing :: "jsstring \<Rightarrow> LocaleMap" where
  "example_existing loc = (if loc = js ''en'' then [(js ''a'', js ''Hello'')] else [])"


section \<open>saveLocaleFile\<close>

text \<open>
  \<^verbatim>\<open>
  const sorted = Object.keys(obj).sort().reduce<LocaleMap>((acc, k) => {
      acc[k] = obj[k];
      return acc;
  }, {});
  \<close>
  The default \<^verbatim>\<open>sort\<close> orders strings by their code units. Every key is an own property
  of \<open>obj\<close>, so \<^verbatim>\<open>obj[k]\<close> is its value.
\<close>

definition sorted_copy :: "LocaleMap \<Rightarrow> LocaleMap" where
  "sorted_copy obj =
     foldl (\<lambda>acc k. case map_of obj k of None \<Rightarrow> acc | Some v \<Rightarrow> set_property acc k v)
           [] (sort (Object_keys obj))"

text \<open>
  \<^verbatim>\<open>JSON.stringify\<close> quotes a string: the two-character escapes, \<^verbatim>\<open>\u\<close> escapes for the
  other control characters and for surrogates that are not paired, everything else as
  it is.
\<close>

definition hex_digit :: "nat \<Rightarrow> jschar" where
  "hex_digit n = (if n < 10 then 0x30 + of_nat n else 0x57 + of_nat n)"

definition unicode_escape :: "jschar \<Rightarrow> jsstring" where
  "unicode_escape c =
     BACKSLASH # 0x75 # map (\<lambda>i. hex_digit (unat c div 16 ^ i mod 16)) [3, 2, 1, 0]"

definition is_lead :: "jschar \<Rightarrow> bool" where
  "is_lead c \<longleftrightarrow> 0xD800 \<le> c \<and> c \<le> 0xDBFF"

definition is_trail :: "jschar \<Rightarrow> bool" where
  "is_trail c \<longleftrightarrow> 0xDC00 \<le> c \<and> c \<le> 0xDFFF"

fun quote_chars :: "jsstring \<Rightarrow> jsstring" where
  "quote_chars [] = []"
| "quote_chars (c # cs) =
     (if c = 0x08 then BACKSLASH # 0x62 # quote_chars cs
      else if c = 0x09 then BACKSLASH # 0x74 # quote_chars cs
      else if c = 0x0A then BACKSLASH # 0x6E # quote_chars cs
      else if c = 0x0C then BACKSLASH # 0x66 # quote_chars cs
      else if c = 0x0D then BACKSLASH # 0x72 # quote_chars cs
      else if c = DQUOTE then BACKSLASH # DQUOTE # quote_chars cs
      else if c = BACKSLASH then BACKSLASH # BACKSLASH # quote_chars cs
      else if c < 0x20 \<or> is_trail c then unicode_escape c @ quote_chars cs
      else if is_lead c then
        (case cs of
           [] \<Rightarrow> unicode_escape c
         | d # ds \<Rightarrow> if is_trail d then c # d # quote_chars ds
                     else unicode_escape c @ quote_chars cs)
      else c # quote_chars cs)"

definition QuoteJSONString :: "jsstring \<Rightarrow> jsstring" where
  "QuoteJSONString s = DQUOTE # quote_chars s @ [DQUOTE]"

fun join :: "jsstring \<Rightarrow> jsstring list \<Rightarrow> jsstring" where
  "join sep [] = []"
| "join sep [x] = x"
| "join sep (x # y # ys) = x @ sep @ join sep (y # ys)"

text \<open>
  \<^verbatim>\<open>JSON.stringify(sorted, null, 2)\<close> for an object with string values: one member on
  each line, indented by two spaces, in the order of \<open>Object_keys\<close>.
\<close>

definition JSON_members :: "LocaleMap \<Rightarrow> jsstring list" where
  "JSON_members obj =
     concat (map (\<lambda>k. case map_of obj k of
                         None \<Rightarrow> []
                       | Some v \<Rightarrow> [js ''  '' @ QuoteJSONString k @ js '': '' @ QuoteJSONString v])
                 (Object_keys obj))"

definition JSON_stringify :: "LocaleMap \<Rightarrow> jsstring" where
  "JSON_stringify obj =
     (if JSON_members obj = [] then js ''{}''
      else js ''{'' @ [NEWLINE] @ join (js '','' @ [NEWLINE]) (JSON_members obj) @ [NEWLINE] @ js ''}'')"

text \<open>
  \<^verbatim>\<open>const out = JSON.stringify(sorted, null, 2) + "\n";\<close>
  the text that \<^verbatim>\<open>saveLocaleFile\<close> writes to the file of the locale.
\<close>

definition saveLocaleFile :: "LocaleMap \<Rightarrow> jsstring" where
  "saveLocaleFile obj = JSON_stringify (sorted_copy obj) @ [NEWLINE]"

text \<open>The keys of the members of the written text, in the order in which they appear.\<close>

definition written_keys :: "LocaleMap \<Rightarrow> jsstring list" where
  "written_keys obj = Object_keys (sorted_copy obj)"

section \<open>Properties of unescapeString\<close>

lemma replace2_head: "x \<noteq> a \<Longrightarrow> replace2 a b r (x # xs) = x # replace2 a b r xs"
  by (cases xs) auto

lemma replace2_single: "replace2 a b r [x] = [x]"
  by simp

lemma specials [simp]: "BACKSLASH \<noteq> QUOTE" "BACKSLASH \<noteq> DQUOTE" "QUOTE \<noteq> DQUOTE"
  "QUOTE \<noteq> BACKSLASH" "DQUOTE \<noteq> BACKSLASH" "DQUOTE \<noteq> QUOTE"
  by (simp_all add: BACKSLASH_def QUOTE_def DQUOTE_def)

lemma unescapeString_Nil: "unescapeString [] = []"
  by (simp add: unescapeString_def)

lemma unescapeString_single: "unescapeString [x] = [x]"
  by (simp add: unescapeString_def)

lemma unescapeString_other:
  "x \<noteq> BACKSLASH \<Longrightarrow> unescapeString (x # xs) = x # unescapeString xs"
  by (simp add: unescapeString_def replace2_head)

lemma unescapeString_quote:
  "unescapeString (BACKSLASH # QUOTE # xs) = QUOTE # unescapeString xs"
  by (simp add: unescapeString_def replace2_head)

lemma unescapeString_dquote:
  "unescapeString (BACKSLASH # DQUOTE # xs) = DQUOTE # unescapeString xs"
  by (simp add: unescapeString_def replace2_head)

lemma unescapeString_plain:
  "y \<noteq> BACKSLASH \<Longrightarrow> y \<noteq> QUOTE \<Longrightarrow> y \<noteq> DQUOTE \<Longrightarrow>
   unescapeString (BACKSLASH # y # xs) = BACKSLASH # y # unescapeString xs"
  by (simp add: unescapeString_def replace2_head)


lemma strip_quotes_backslashes:
  "replace2 BACKSLASH DQUOTE [DQUOTE] (replace2 BACKSLASH QUOTE [QUOTE] (BACKSLASH # BACKSLASH # t)) =
   BACKSLASH # replace2 BACKSLASH DQUOTE [DQUOTE] (replace2 BACKSLASH QUOTE [QUOTE] (BACKSLASH # t))"
proof -
  have "\<exists>z zs. replace2 BACKSLASH QUOTE [QUOTE] (BACKSLASH # t) = z # zs \<and> z \<noteq> DQUOTE"
    by (cases t) simp_all
  then obtain z zs where "replace2 BACKSLASH QUOTE [QUOTE] (BACKSLASH # t) = z # zs" "z \<noteq> DQUOTE"
    by blast
  then show ?thesis by (simp add: replace2_head)
qed

lemma unescapeString_backslash:
  "unescapeString (BACKSLASH # BACKSLASH # xs) = BACKSLASH # unescapeString xs"
proof (cases xs)
  case Nil
  then show ?thesis by (simp add: unescapeString_def)
next
  case (Cons y ys)
  consider "y = BACKSLASH" | "y = QUOTE" | "y = DQUOTE"
    | "y \<noteq> BACKSLASH" "y \<noteq> QUOTE" "y \<noteq> DQUOTE" by blast
  then show ?thesis
  proof cases
    case 1
    with Cons show ?thesis
      by (simp only: unescapeString_def strip_quotes_backslashes) simp
  next
    case 2
    with Cons show ?thesis by (simp add: unescapeString_def replace2_head)
  next
    case 3
    with Cons show ?thesis by (simp add: unescapeString_def replace2_head)
  next
    case 4
    with Cons show ?thesis by (simp add: unescapeString_def replace2_head)
  qed
qed

text \<open>
  Claim C8: for every content string, the three global replacements of
  \<^verbatim>\<open>unescapeString\<close>, applied one after the other, give the same result as one scan
  from left to right that resolves the escape sequences backslash-quote,
  backslash-double-quote and backslash-backslash to their second character.
\<close>

theorem unescapeString_is_scan: "unescapeString str = unescape_scan str"
proof (induction str rule: unescape_scan.induct)
  case (1 x y xs)
  show ?case
  proof (cases "x = BACKSLASH")
    case False
    with 1 show ?thesis by (simp add: unescapeString_other)
  next
    case True
    consider "y = BACKSLASH" | "y = QUOTE" | "y = DQUOTE"
      | "y \<noteq> BACKSLASH" "y \<noteq> QUOTE" "y \<noteq> DQUOTE" by blast
    then show ?thesis
    proof cases
      case 1
      with True "1.IH" show ?thesis by (simp add: unescapeString_backslash)
    next
      case 2
      with True "1.IH" show ?thesis by (simp add: unescapeString_quote)
    next
      case 3
      with True "1.IH" show ?thesis by (simp add: unescapeString_dquote)
    next
      case 4
      with True "1.IH" show ?thesis
        by (cases "y = BACKSLASH") (simp_all add: unescapeString_plain unescapeString_other)
    qed
  qed
qed (simp_all add: unescapeString_Nil unescapeString_single)


section \<open>Properties of extractKeys\<close>

declare ms.simps [simp del]

lemma step_char_rest:
  "s' \<in> set (step_char p s) \<Longrightarrow> length (rest s') < length (rest s)"
  by (cases "rest s") (auto simp: step_char_def split: if_splits)

lemma ms_rest_le: "s' \<in> set (ms r s) \<Longrightarrow> length (rest s') \<le> length (rest s)"
proof (induction r s arbitrary: s' rule: ms.induct)
  case (7 a b s)
  from "7.prems" obtain m where "m \<in> set (ms a s)" "s' \<in> set (ms b m)"
    by (auto simp: ms.simps(7))
  with "7.IH" show ?case by (meson order_trans)
next
  case (9 r s)
  from "9.prems" consider "s' = s"
    | x where "x \<in> set (ms r s)" "length (rest x) < length (rest s)" "s' \<in> set (ms (Star r) x)"
    by (subst (asm) ms.simps(9)) (auto split: if_splits)
  then show ?case
  proof cases
    case 1
    then show ?thesis by simp
  next
    case 2
    with "9.IH"(2) [of x s'] show ?thesis by simp
  qed
next
  case (11 n s)
  then show ?case by (auto simp: ms.simps(11) split: option.splits if_splits)
next
  case (8 a b s)
  then show ?case by (auto simp: ms.simps(8))
next
  case (10 n r s)
  then show ?case by (auto simp: ms.simps(10))
next
  case (12 r s)
  then show ?case by (auto simp: ms.simps(12) split: if_splits)
qed (auto simp: ms.simps(1-6) dest: step_char_rest less_imp_le)

lemma ms_consuming:
  "consuming r \<Longrightarrow> s' \<in> set (ms r s) \<Longrightarrow> length (rest s') < length (rest s)"
proof (induction r arbitrary: s s')
  case (Seq a b)
  from Seq.prems(2) obtain m where m: "m \<in> set (ms a s)" "s' \<in> set (ms b m)"
    by (auto simp: ms.simps(7))
  from Seq.prems(1) have "consuming a \<or> consuming b" by simp
  then show ?case
  proof
    assume "consuming a"
    with m Seq.IH(1) ms_rest_le [of s' b m] show ?thesis by fastforce
  next
    assume "consuming b"
    with m Seq.IH(2) ms_rest_le [of m a s] show ?thesis by fastforce
  qed
next
  case (Alt a b)
  then show ?case by (auto simp: ms.simps(8))
next
  case (Group n r)
  then show ?case by (auto simp: ms.simps(10))
qed (auto simp: ms.simps(1-6) dest: step_char_rest)

lemma exec_rest_le: "exec re src = Some m \<Longrightarrow> length (rest m) \<le> length src"
proof (induction src)
  case Nil
  then show ?case
    using ms_rest_le [of m re "\<lparr>rest = [], caps = Map.empty\<rparr>"]
    by (auto split: list.splits)
next
  case (Cons x xs)
  then show ?case
    using ms_rest_le [of m re "\<lparr>rest = x # xs, caps = Map.empty\<rparr>"]
    by (auto split: list.splits)
qed

lemma exec_consuming:
  "consuming re \<Longrightarrow> exec re src = Some m \<Longrightarrow> length (rest m) < length src"
proof (induction src)
  case Nil
  then show ?case
    using ms_consuming [of re m "\<lparr>rest = [], caps = Map.empty\<rparr>"]
    by (auto split: list.splits)
next
  case (Cons x xs)
  then show ?case
    using ms_consuming [of re m "\<lparr>rest = x # xs, caps = Map.empty\<rparr>"]
    by (auto split: list.splits)
qed

lemma set_replace2: "set (replace2 a b r xs) \<subseteq> set xs \<union> set r"
  by (induction a b r xs rule: replace2.induct) auto

lemma set_unescapeString: "set (unescapeString k) \<subseteq> set k \<union> {BACKSLASH, DQUOTE, QUOTE}"
  unfolding unescapeString_def
  using set_replace2 [of BACKSLASH BACKSLASH "[BACKSLASH]"]
        set_replace2 [of BACKSLASH DQUOTE "[DQUOTE]"]
        set_replace2 [of BACKSLASH QUOTE "[QUOTE]" k]
  by fastforce

lemma newline_unescapeString: "NEWLINE \<notin> set k \<Longrightarrow> NEWLINE \<notin> set (unescapeString k)"
  using set_unescapeString [of k]
  by (auto simp: NEWLINE_def BACKSLASH_def DQUOTE_def QUOTE_def)

lemma newline_free_add_match: "newline_free keys \<Longrightarrow> newline_free (add_match m keys)"
  by (auto simp: newline_free_def add_match_def set_add_def newline_unescapeString
           split: option.splits)

lemma exec_loop_returns:
  "consuming re \<Longrightarrow> newline_free keys \<Longrightarrow>
   \<exists>keys'. exec_loop re src keys = Some keys' \<and> newline_free keys'"
proof (induction re src keys rule: exec_loop.induct)
  case (1 re src keys)
  show ?case
  proof (cases "exec re src")
    case None
    with 1 show ?thesis by simp
  next
    case (Some m)
    with "1.prems" have lt: "length (rest m) < length src" by (simp add: exec_consuming)
    with Some "1.IH" [OF Some lt] "1.prems" show ?thesis
      by (simp add: newline_free_add_match)
  qed
qed

lemma for_patterns_returns:
  "list_all consuming res \<Longrightarrow> newline_free keys \<Longrightarrow>
   \<exists>keys'. for_patterns res source keys = Some keys' \<and> newline_free keys'"
proof (induction res arbitrary: keys)
  case Nil
  then show ?case by simp
next
  case (Cons re res)
  then obtain k1 where "exec_loop re source keys = Some k1" "newline_free k1"
    using exec_loop_returns [of re keys source] by auto
  with Cons show ?case by simp
qed

lemma consuming_CALL_PATTERNS: "list_all consuming CALL_PATTERNS"
  by (simp add: CALL_PATTERNS_def quoted_arg_def seqs_def lit_def Plus_def)

text \<open>
  The example of the specification for extraction. The template literal is found by the
  first pattern already, so its key enters the set before that of the directive.
\<close>

lemma extractKeys_spec_example:
  "extractKeys (js ''__('hello.world') trans(\"bye\") @lang('greet') trans(`multi word`)'') =
   Some [js ''hello.world'', js ''bye'', js ''multi word'', js ''greet'']"
  by code_simp

text \<open>An escaped quote inside a quoted argument is part of the key, without its backslash.\<close>

lemma extractKeys_escaped_quote:
  "extractKeys (js ''__('' @ [QUOTE] @ js ''it'' @ [BACKSLASH, QUOTE] @ js ''s'' @ [QUOTE] @ js '')'') =
   Some [js ''it'' @ [QUOTE] @ js ''s'']"
  by code_simp

text \<open>
  Claim C7: for every source text \<^verbatim>\<open>extractKeys\<close> returns, and no key of the set it
  returns contains a newline character.
\<close>

theorem extractKeys_no_newline:
  "\<exists>keys. extractKeys source = Some keys \<and> (\<forall>k \<in> set keys. NEWLINE \<notin> set k)"
  using for_patterns_returns [OF consuming_CALL_PATTERNS, of "[]" source]
  by (simp add: extractKeys_def newline_free_def)

text \<open>
  A template literal over two lines and a plain call: the match of the third pattern
  captures the newline and is dropped, the plain key is kept.
\<close>

theorem extractKeys_no_newline_witness:
  "extractKeys (js ''trans(`a\<newline>b`) __('c')'') = Some [js ''c''] \<and>
   NEWLINE \<notin> set (js ''c'')"
proof -
  have e: "extractKeys (js ''trans(`a\<newline>b`) __('c')'') = Some [js ''c'']"
    by code_simp
  from extractKeys_no_newline [of "js ''trans(`a\<newline>b`) __('c')''"] e
  show ?thesis by simp
qed

text \<open>
  Claim C1: a source text whose only call is \<^verbatim>\<open>__\<close> with an interpolated template
  literal should give no key. The first pattern accepts the backtick as a quote
  character and does not exclude \<^verbatim>\<open>$\<close>, so the call is matched by it and its content
  is returned as a key; the third pattern, taken alone, finds nothing in this text.
\<close>

theorem extractKeys_interpolated_template:
  "extractKeys (js ''__(`Hello ${name}`)'') = Some [js ''Hello ${name}''] \<and>
   for_patterns (drop 2 CALL_PATTERNS) (js ''__(`Hello ${name}`)'') [] = Some []"
  by code_simp

section \<open>Properties of reconciliation\<close>

lemma proto_in_prototype: "js ''__proto__'' \<in> set Object_prototype_keys"
  by (simp add: Object_prototype_keys_def)

lemma add_key_eq:
  "add_key master ph loc dict key =
     (if has_property key dict then dict else dict @ [(key, new_value master ph loc key)])"
  using proto_in_prototype
  by (auto simp: add_key_def set_property_def has_property_def)

lemma has_property_add_key: "has_property key (add_key master ph loc dict key)"
  by (auto simp: add_key_eq has_property_def)

lemma add_key_idem:
  "add_key master ph loc (add_key master ph loc dict key) key = add_key master ph loc dict key"
  using has_property_add_key [of key master ph loc dict] by (simp add: add_key_eq)

lemma length_add_key: "length dict \<le> length (add_key master ph loc dict key)"
  by (simp add: add_key_eq)

lemma state_of_cong:
  "(\<And>l. l \<in> set locales \<Longrightarrow> D l = D' l) \<Longrightarrow> state_of locales existing D = state_of locales existing D'"
  by (auto simp: state_of_def fun_eq_iff)

lemma add_missing_state_of:
  assumes "loc \<in> set locales" and "length (existing loc) \<le> length (D loc)"
  shows "add_missing master ph key loc (state_of locales existing D) =
         Inr (state_of locales existing (D(loc := add_key master ph loc (D loc) key)))"
proof (cases "has_property key (D loc)")
  case True
  then have "D(loc := add_key master ph loc (D loc) key) = D"
    by (simp add: add_key_eq)
  with True assms show ?thesis
    by (simp add: add_missing_def state_of_def)
next
  case False
  let ?D' = "D(loc := add_key master ph loc (D loc) key)"
  have len: "length (?D' loc) - length (existing loc) = Suc (length (D loc) - length (existing loc))"
    using False assms(2) by (simp add: add_key_eq)
  have "(\<Sum>l \<in> set locales. length (?D' l) - length (existing l)) =
        (length (?D' loc) - length (existing loc)) +
        (\<Sum>l \<in> set locales - {loc}. length (?D' l) - length (existing l))"
    using assms(1) by (simp add: sum.remove)
  also have "(\<Sum>l \<in> set locales - {loc}. length (?D' l) - length (existing l)) =
        (\<Sum>l \<in> set locales - {loc}. length (D l) - length (existing l))"
    by (rule sum.cong) auto
  finally have total: "(\<Sum>l \<in> set locales. length (?D' l) - length (existing l)) =
        (\<Sum>l \<in> set locales. length (D l) - length (existing l)) + 1"
    using assms(1) len by (simp add: sum.remove [of "set locales" loc])
  have "set_property (D loc) key (new_value master ph loc key) = add_key master ph loc (D loc) key"
    using False by (simp add: add_key_def)
  with False assms total len show ?thesis
    by (auto simp: add_missing_def state_of_def increment_def fun_eq_iff)
qed

lemma for_locales_state_of:
  assumes "set locs \<subseteq> set locales" and "\<And>l. length (existing l) \<le> length (D l)"
  shows "for_locales master ph key locs (state_of locales existing D) =
         Inr (state_of locales existing
                (\<lambda>l. if l \<in> set locs then add_key master ph l (D l) key else D l))"
  using assms
proof (induction locs arbitrary: D)
  case Nil
  then show ?case by simp
next
  case (Cons loc locs)
  let ?D1 = "D(loc := add_key master ph loc (D loc) key)"
  have le: "\<And>l. length (existing l) \<le> length (?D1 l)"
    using Cons.prems(2) length_add_key [of "D loc" master ph loc key]
    by (auto intro: order_trans)
  have "for_locales master ph key (loc # locs) (state_of locales existing D) =
        for_locales master ph key locs (state_of locales existing ?D1)"
    using Cons.prems by (simp add: add_missing_state_of)
  also have "\<dots> = Inr (state_of locales existing
      (\<lambda>l. if l \<in> set locs then add_key master ph l (?D1 l) key else ?D1 l))"
    using Cons.prems(1) by (intro Cons.IH le) simp
  also have "(\<lambda>l. if l \<in> set locs then add_key master ph l (?D1 l) key else ?D1 l) =
      (\<lambda>l. if l \<in> set (loc # locs) then add_key master ph l (D l) key else D l)"
    by (auto simp: fun_eq_iff add_key_idem)
  finally show ?case .
qed

lemma for_keys_state_of:
  assumes "\<And>l. length (existing l) \<le> length (D l)"
  shows "for_keys master ph locales keys (state_of locales existing D) =
         Inr (state_of locales existing (\<lambda>l. foldl (add_key master ph l) (D l) keys))"
  using assms
proof (induction keys arbitrary: D)
  case Nil
  then show ?case by simp
next
  case (Cons key keys)
  let ?D1 = "\<lambda>l. add_key master ph l (D l) key"
  have le: "\<And>l. length (existing l) \<le> length (?D1 l)"
    using Cons.prems length_add_key by (blast intro: order_trans)
  have "for_locales master ph key locales (state_of locales existing D) =
        Inr (state_of locales existing ?D1)"
    using Cons.prems
    by (simp add: for_locales_state_of cong: state_of_cong)
  then show ?case
    using Cons.IH [of ?D1, OF le] by simp
qed

lemma load_all_apply:
  "load_all existing locales l = (if l \<in> set locales then Some (existing l) else None)"
proof -
  have "foldl (\<lambda>data loc. data(loc \<mapsto> existing loc)) m locales l =
        (if l \<in> set locales then Some (existing l) else m l)" for m
    by (induction locales arbitrary: m) auto
  then show ?thesis by (simp add: load_all_def)
qed

lemma zero_counts_apply:
  "zero_counts locales l = (if l \<in> set locales then Some (Num 0) else None)"
proof -
  have "foldl (\<lambda>counts loc. counts(loc \<mapsto> Num 0)) m locales l =
        (if l \<in> set locales then Some (Num 0) else m l)" for m
    by (induction locales arbitrary: m) auto
  then show ?thesis by (simp add: zero_counts_def)
qed

lemma reconcile_state_of:
  "reconcile foundKeys locales master ph existing =
   Inr (state_of locales existing (\<lambda>l. foldl (add_key master ph l) (existing l) foundKeys))"
proof -
  have "\<lparr>localeData = load_all existing locales, addedTotal = 0,
         perLocaleCounts = zero_counts locales\<rparr> = state_of locales existing existing"
    by (simp add: state_of_def fun_eq_iff load_all_apply zero_counts_apply)
  then show ?thesis
    by (simp add: reconcile_def for_keys_state_of)
qed

lemma localeData_state_of [simp]:
  "localeData (state_of locales existing D) = (\<lambda>l. if l \<in> set locales then Some (D l) else None)"
  by (simp add: state_of_def)

lemma addedTotal_state_of [simp]:
  "addedTotal (state_of locales existing D) =
   (\<Sum>l \<in> set locales. length (D l) - length (existing l))"
  by (simp add: state_of_def)

lemma perLocaleCounts_state_of [simp]:
  "perLocaleCounts (state_of locales existing D) =
   (\<lambda>l. if l \<in> set locales then Some (Num (length (D l) - length (existing l))) else None)"
  by (simp add: state_of_def)

lemma add_key_has: "has_property key dict \<Longrightarrow> add_key master ph loc dict key = dict"
  by (simp add: add_key_eq)

lemma add_key_new:
  "\<not> has_property key dict \<Longrightarrow>
   add_key master ph loc dict key = dict @ [(key, new_value master ph loc key)]"
  by (simp add: add_key_eq)

lemma has_property_snoc:
  "has_property k (dict @ [(key, v)]) \<longleftrightarrow> has_property k dict \<or> k = key"
  by (auto simp: has_property_def)

lemma has_property_lookup:
  "has_property k dict \<longleftrightarrow> map_of dict k \<noteq> None \<or> k \<in> set Object_prototype_keys"
  by (auto simp: has_property_def map_of_eq_None_iff)

lemma merged_entries:
  "set (foldl (add_key master ph loc) dict keys) =
   set dict \<union> (\<lambda>k. (k, new_value master ph loc k)) ` {k \<in> set keys. \<not> has_property k dict}"
proof (induction keys arbitrary: dict)
  case Nil
  then show ?case by simp
next
  case (Cons key keys)
  show ?case
  proof (cases "has_property key dict")
    case True
    then show ?thesis
      using Cons.IH [of dict] by (auto simp: add_key_has)
  next
    case False
    then show ?thesis
      using Cons.IH [of "dict @ [(key, new_value master ph loc key)]"]
      by (auto simp: add_key_new has_property_snoc)
  qed
qed

lemma merged_prefix: "\<exists>added. foldl (add_key master ph loc) dict keys = dict @ added"
proof (induction keys arbitrary: dict)
  case Nil
  then show ?case by simp
next
  case (Cons key keys)
  obtain added where *:
    "foldl (add_key master ph loc) (add_key master ph loc dict key) keys =
     add_key master ph loc dict key @ added"
    using Cons.IH by blast
  show ?case
  proof (cases "has_property key dict")
    case True
    with * show ?thesis by (simp add: add_key_has)
  next
    case False
    with * show ?thesis by (simp add: add_key_new)
  qed
qed

lemma merged_lookup:
  "map_of (foldl (add_key master ph loc) dict keys) k =
   (case map_of dict k of
      Some v \<Rightarrow> Some v
    | None \<Rightarrow> if k \<in> set keys \<and> k \<notin> set Object_prototype_keys
              then Some (new_value master ph loc k) else None)"
proof (induction keys arbitrary: dict)
  case Nil
  then show ?case by (simp split: option.splits)
next
  case (Cons key keys)
  show ?case
  proof (cases "has_property key dict")
    case True
    then have "k = key \<Longrightarrow> map_of dict k \<noteq> None \<or> k \<in> set Object_prototype_keys"
      by (simp add: has_property_lookup)
    with True show ?thesis
      using Cons.IH [of dict] by (auto simp: add_key_has split: option.splits)
  next
    case False
    then have key: "map_of dict key = None" "key \<notin> set Object_prototype_keys"
      by (simp_all add: has_property_lookup)
    let ?d = "dict @ [(key, new_value master ph loc key)]"
    have "map_of ?d k = (if k = key then Some (new_value master ph loc key) else map_of dict k)"
      using key(1) by (simp add: map_add_def split: option.splits)
    with False key show ?thesis
      using Cons.IH [of ?d] by (simp add: add_key_new split: option.splits)
  qed
qed

lemma merged_unchanged:
  "(\<And>k. k \<in> set keys \<Longrightarrow> has_property k dict) \<Longrightarrow> foldl (add_key master ph loc) dict keys = dict"
  by (induction keys) (simp_all add: add_key_has)

lemma has_property_merged:
  "has_property k dict \<or> k \<in> set keys \<Longrightarrow> has_property k (foldl (add_key master ph loc) dict keys)"
proof (induction keys arbitrary: dict)
  case Nil
  then show ?case by simp
next
  case (Cons key keys)
  have "has_property k (add_key master ph loc dict key) \<or> k \<in> set keys"
    using Cons.prems by (cases "has_property key dict") (auto simp: add_key_has add_key_new has_property_snoc)
  then show ?case using Cons.IH by simp
qed

lemma merged_idem:
  "foldl (add_key master ph loc) (foldl (add_key master ph loc) dict keys) keys =
   foldl (add_key master ph loc) dict keys"
  by (rule merged_unchanged) (simp add: has_property_merged)

lemma merged_length:
  "length (foldl (add_key master ph loc) dict keys) =
   length dict + card {k \<in> set keys. \<not> has_property k dict}"
proof (induction keys arbitrary: dict)
  case Nil
  then show ?case by simp
next
  case (Cons key keys)
  show ?case
  proof (cases "has_property key dict")
    case True
    then have "{k \<in> set (key # keys). \<not> has_property k dict} = {k \<in> set keys. \<not> has_property k dict}"
      by auto
    with True show ?thesis
      using Cons.IH [of dict] by (simp add: add_key_has)
  next
    case False
    let ?d = "dict @ [(key, new_value master ph loc key)]"
    have hp: "has_property k ?d \<longleftrightarrow> has_property k dict \<or> k = key" for k
      by (rule has_property_snoc)
    have "{k \<in> set (key # keys). \<not> has_property k dict} =
          insert key {k \<in> set keys. \<not> has_property k ?d}"
      using False by (auto simp: hp)
    moreover have "key \<notin> {k \<in> set keys. \<not> has_property k ?d}"
      by (simp add: hp)
    ultimately have "card {k \<in> set (key # keys). \<not> has_property k dict} =
          Suc (card {k \<in> set keys. \<not> has_property k ?d})"
      by simp
    with False show ?thesis
      using Cons.IH [of ?d] by (simp add: add_key_new)
  qed
qed

text \<open>
  Claim C3: for every key \<open>K\<close> with value \<open>V\<close> in the starting dictionary of a configured
  locale, reconciliation with any discovered key set returns, and the dictionary of that
  locale still maps \<open>K\<close> to \<open>V\<close>: the starting entries are all kept, in their place, and
  entries are only added behind them. No locale is named \<^verbatim>\<open>__proto__\<close>.
\<close>

theorem reconcile_keeps_existing:
  assumes "js ''__proto__'' \<notin> set locales"
    and "loc \<in> set locales" and "map_of (existing loc) K = Some V"
  shows "\<exists>st dict added.
           reconcile foundKeys locales master ph existing = Inr st \<and>
           localeData st loc = Some dict \<and> dict = existing loc @ added \<and>
           map_of dict K = Some V"
proof -
  let ?dict = "foldl (add_key master ph loc) (existing loc) foundKeys"
  obtain added where "?dict = existing loc @ added"
    using merged_prefix by blast
  moreover have "map_of ?dict K = Some V"
    using assms(3) by (simp add: merged_lookup)
  ultimately show ?thesis
    using assms(2) by (simp add: reconcile_state_of)
qed

text \<open>
  Claim C4: every entry that reconciliation adds to the dictionary of a locale has a
  discovered key, and its value is the key if the locale is the master locale;
  otherwise it is the key in placeholder mode \<open>Copy\<close> and the empty string in mode \<open>Empty\<close>.
\<close>

theorem reconcile_new_value:
  assumes "reconcile foundKeys locales master ph existing = Inr st"
    and "localeData st loc = Some dict"
    and "(K, V) \<in> set dict" and "(K, V) \<notin> set (existing loc)"
  shows "K \<in> set foundKeys \<and>
         V = (if loc = master then K else (case ph of Copy \<Rightarrow> K | Empty \<Rightarrow> []))"
proof -
  from assms(1) have st: "st = state_of locales existing
      (\<lambda>l. foldl (add_key master ph l) (existing l) foundKeys)"
    by (simp add: reconcile_state_of)
  with assms(2) have "dict = foldl (add_key master ph loc) (existing loc) foundKeys"
    by (simp split: if_splits)
  with assms(3,4) show ?thesis
    by (auto simp: merged_entries new_value_def)
qed

text \<open>
  Claim C9: if the master locale is not in the locale list, reconciliation still returns
  without an error, and the value of every added entry is given by the placeholder mode
  alone. No locale is named \<^verbatim>\<open>__proto__\<close>.
\<close>

theorem reconcile_master_absent:
  assumes "js ''__proto__'' \<notin> set locales" and "master \<notin> set locales"
  shows "\<exists>st. reconcile foundKeys locales master ph existing = Inr st \<and>
           (\<forall>loc dict K V.
              localeData st loc = Some dict \<longrightarrow> (K, V) \<in> set dict \<longrightarrow>
              (K, V) \<notin> set (existing loc) \<longrightarrow>
              V = (case ph of Copy \<Rightarrow> K | Empty \<Rightarrow> []))"
proof -
  let ?st = "state_of locales existing (\<lambda>l. foldl (add_key master ph l) (existing l) foundKeys)"
  have "V = (case ph of Copy \<Rightarrow> K | Empty \<Rightarrow> [])"
    if "localeData ?st loc = Some dict" "(K, V) \<in> set dict" "(K, V) \<notin> set (existing loc)"
    for loc dict K V
  proof -
    from that(1) have "loc \<in> set locales"
      and "dict = foldl (add_key master ph loc) (existing loc) foundKeys"
      by (simp_all split: if_splits)
    with that(2,3) assms(2) show ?thesis
      by (auto simp: merged_entries new_value_def)
  qed
  then show ?thesis
    by (simp add: reconcile_state_of)
qed

text \<open>
  Claim C5: reconciliation returns, and a second reconciliation with the same discovered
  keys on the dictionaries of the first adds nothing: the total is 0, every count is 0
  and the dictionaries are those of the first run. No locale is named \<^verbatim>\<open>__proto__\<close>.
\<close>

theorem reconcile_idempotent:
  assumes "js ''__proto__'' \<notin> set locales"
  shows "\<exists>st st2.
     reconcile foundKeys locales master ph existing = Inr st \<and>
     reconcile foundKeys locales master ph (dictionaries st) = Inr st2 \<and>
     localeData st2 = localeData st \<and> addedTotal st2 = 0 \<and>
     perLocaleCounts st2 = zero_counts locales"
proof -
  let ?D = "\<lambda>l. foldl (add_key master ph l) (existing l) foundKeys"
  let ?st = "state_of locales existing ?D"
  let ?E = "dictionaries ?st"
  have E: "?E l = ?D l" if "l \<in> set locales" for l
    using that by (simp add: dictionaries_def)
  have first: "reconcile foundKeys locales master ph existing = Inr ?st"
    by (rule reconcile_state_of)
  have "state_of locales ?E (\<lambda>l. foldl (add_key master ph l) (?E l) foundKeys) =
        state_of locales ?E ?E"
    by (rule state_of_cong) (simp add: E merged_idem)
  then have second: "reconcile foundKeys locales master ph ?E = Inr (state_of locales ?E ?E)"
    by (simp add: reconcile_state_of)
  have dicts: "localeData (state_of locales ?E ?E) = localeData ?st"
    using E by (simp add: fun_eq_iff)
  have total: "addedTotal (state_of locales ?E ?E) = 0"
    by simp
  have counts: "perLocaleCounts (state_of locales ?E ?E) = zero_counts locales"
    by (simp add: fun_eq_iff zero_counts_apply)
  from first second dicts total counts show ?thesis
    by blast
qed

text \<open>
  Claim C6: the entries of every dictionary after reconciliation, the values they map the
  keys to, the total and the counts are the same for any order of the discovered keys
  and any order of the locales. No locale is named \<^verbatim>\<open>__proto__\<close>.
\<close>

theorem reconcile_order_independent:
  assumes "js ''__proto__'' \<notin> set locales"
    and "set foundKeys' = set foundKeys" and "set locales' = set locales"
  shows "\<exists>st st'.
           reconcile foundKeys locales master ph existing = Inr st \<and>
           reconcile foundKeys' locales' master ph existing = Inr st' \<and>
           (\<lambda>loc. map_option set (localeData st loc)) =
             (\<lambda>loc. map_option set (localeData st' loc)) \<and>
           (\<lambda>loc. map_option map_of (localeData st loc)) =
             (\<lambda>loc. map_option map_of (localeData st' loc)) \<and>
           addedTotal st = addedTotal st' \<and> perLocaleCounts st = perLocaleCounts st'"
proof -
  let ?D = "\<lambda>l. foldl (add_key master ph l) (existing l) foundKeys"
  let ?D' = "\<lambda>l. foldl (add_key master ph l) (existing l) foundKeys'"
  have entries: "set (?D l) = set (?D' l)" for l
    using assms(2) by (simp add: merged_entries)
  have lookup: "map_of (?D l) = map_of (?D' l)" for l
    using assms(2) by (auto simp: fun_eq_iff merged_lookup split: option.splits)
  have len: "length (?D l) = length (?D' l)" for l
    using assms(2) by (simp add: merged_length)
  show ?thesis
    using assms(3) entries lookup len
    by (simp add: reconcile_state_of fun_eq_iff)
qed

text \<open>
  The keys of a dictionary after reconciliation: the keys it had and the discovered
  keys that are not names of properties of \<^verbatim>\<open>Object.prototype\<close>.
\<close>

lemma merged_keys:
  "set (map fst (foldl (add_key master ph loc) dict keys)) =
   set (map fst dict) \<union> {k \<in> set keys. k \<notin> set Object_prototype_keys}"
proof -
  have "fst ` set (foldl (add_key master ph loc) dict keys) =
        fst ` set dict \<union> {k \<in> set keys. \<not> has_property k dict}"
    by (simp add: merged_entries image_Un image_image)
  also have "\<dots> = fst ` set dict \<union> {k \<in> set keys. k \<notin> set Object_prototype_keys}"
    by (auto simp: has_property_def)
  finally show ?thesis by simp
qed

lemma reconcile_key_set:
  assumes "loc \<in> set locales"
  shows "\<exists>st dict.
           reconcile foundKeys locales master ph existing = Inr st \<and>
           localeData st loc = Some dict \<and>
           set (map fst dict) =
             set (map fst (existing loc)) \<union> {k \<in> set foundKeys. k \<notin> set Object_prototype_keys}"
  using assms merged_keys [of master ph loc "existing loc" foundKeys]
  by (simp add: reconcile_state_of)

lemma plain_keys:
  "js ''a'' \<notin> set Object_prototype_keys" "js ''b'' \<notin> set Object_prototype_keys"
  by (simp_all add: Object_prototype_keys_def js_def)

lemma example_de:
  "foldl (add_key (js ''en'') Empty (js ''de'')) [] [js ''a'', js ''b''] =
   [(js ''a'', []), (js ''b'', [])]"
  by (simp add: add_key_eq has_property_def plain_keys new_value_def) (simp add: js_def)

lemma example_de_absent:
  "foldl (add_key (js ''fr'') Empty (js ''de'')) [] [js ''a'', js ''b''] =
   [(js ''a'', []), (js ''b'', [])]"
  by (simp add: add_key_eq has_property_def plain_keys new_value_def) (simp add: js_def)

theorem reconcile_keeps_existing_witness:
  "js ''__proto__'' \<notin> set [js ''en'', js ''de''] \<and>
   js ''en'' \<in> set [js ''en'', js ''de''] \<and>
   map_of (example_existing (js ''en'')) (js ''a'') = Some (js ''Hello'') \<and>
   (\<exists>st dict added.
      reconcile [js ''a'', js ''b''] [js ''en'', js ''de''] (js ''en'') Copy example_existing = Inr st \<and>
      localeData st (js ''en'') = Some dict \<and> dict = example_existing (js ''en'') @ added \<and>
      map_of dict (js ''a'') = Some (js ''Hello''))"
proof -
  have h0: "js ''__proto__'' \<notin> set [js ''en'', js ''de'']" by (simp add: js_def)
  have h1: "js ''en'' \<in> set [js ''en'', js ''de'']" by simp
  have h2: "map_of (example_existing (js ''en'')) (js ''a'') = Some (js ''Hello'')"
    by (simp add: example_existing_def)
  from reconcile_keeps_existing
         [where loc = "js ''en''" and existing = example_existing, OF h0 h1 h2] h0 h1 h2
  show ?thesis by blast
qed

theorem reconcile_new_value_witness:
  "\<exists>st. reconcile [js ''a'', js ''b''] [js ''en'', js ''de''] (js ''en'') Empty example_existing = Inr st \<and>
      localeData st (js ''de'') = Some [(js ''a'', []), (js ''b'', [])] \<and>
      (js ''b'', []) \<in> set [(js ''a'', []), (js ''b'', [])] \<and>
      (js ''b'', []) \<notin> set (example_existing (js ''de'')) \<and>
      js ''b'' \<in> set [js ''a'', js ''b''] \<and>
      [] = (if js ''de'' = js ''en'' then js ''b'' else (case Empty of Copy \<Rightarrow> js ''b'' | Empty \<Rightarrow> []))"
proof -
  let ?st = "state_of [js ''en'', js ''de''] example_existing
      (\<lambda>l. foldl (add_key (js ''en'') Empty l) (example_existing l) [js ''a'', js ''b''])"
  have de: "example_existing (js ''de'') = []"
    by (simp add: example_existing_def js_def)
  have h1: "reconcile [js ''a'', js ''b''] [js ''en'', js ''de''] (js ''en'') Empty example_existing = Inr ?st"
    by (rule reconcile_state_of)
  have h2: "localeData ?st (js ''de'') = Some [(js ''a'', []), (js ''b'', [])]"
    using example_de by (simp add: de)
  have h3: "(js ''b'', []) \<in> set [(js ''a'', []), (js ''b'', [])]" by simp
  have h4: "(js ''b'', []) \<notin> set (example_existing (js ''de''))" by (simp add: de)
  from reconcile_new_value [OF h1 h2 h3 h4] h1 h2 h3 h4 show ?thesis by blast
qed

theorem reconcile_master_absent_witness:
  "js ''__proto__'' \<notin> set [js ''en'', js ''de''] \<and>
   js ''fr'' \<notin> set [js ''en'', js ''de''] \<and>
   (\<exists>st. reconcile [js ''a'', js ''b''] [js ''en'', js ''de''] (js ''fr'') Empty example_existing = Inr st \<and>
      localeData st (js ''de'') = Some [(js ''a'', []), (js ''b'', [])] \<and>
      (js ''b'', []) \<notin> set (example_existing (js ''de'')) \<and>
      [] = (case Empty of Copy \<Rightarrow> js ''b'' | Empty \<Rightarrow> []))"
proof -
  let ?st = "state_of [js ''en'', js ''de''] example_existing
      (\<lambda>l. foldl (add_key (js ''fr'') Empty l) (example_existing l) [js ''a'', js ''b''])"
  have de: "example_existing (js ''de'') = []"
    by (simp add: example_existing_def js_def)
  have hp: "js ''__proto__'' \<notin> set [js ''en'', js ''de'']" by (simp add: js_def)
  have h0: "js ''fr'' \<notin> set [js ''en'', js ''de'']" by (simp add: js_def)
  have h1: "reconcile [js ''a'', js ''b''] [js ''en'', js ''de''] (js ''fr'') Empty example_existing = Inr ?st"
    by (rule reconcile_state_of)
  have h2: "localeData ?st (js ''de'') = Some [(js ''a'', []), (js ''b'', [])]"
    using example_de_absent by (simp add: de)
  have h4: "(js ''b'', []) \<notin> set (example_existing (js ''de''))" by (simp add: de)
  from reconcile_master_absent [OF hp h0, of "[js ''a'', js ''b'']" Empty example_existing]
    hp h0 h1 h2 h4
  show ?thesis by simp
qed

theorem reconcile_order_independent_witness:
  "js ''__proto__'' \<notin> set [js ''en'', js ''de''] \<and>
   set [js ''b'', js ''a''] = set [js ''a'', js ''b''] \<and>
   set [js ''de'', js ''en''] = set [js ''en'', js ''de''] \<and>
   (\<exists>st st'.
      reconcile [js ''a'', js ''b''] [js ''en'', js ''de''] (js ''en'') Copy example_existing = Inr st \<and>
      reconcile [js ''b'', js ''a''] [js ''de'', js ''en''] (js ''en'') Copy example_existing = Inr st' \<and>
      (\<lambda>loc. map_option set (localeData st loc)) = (\<lambda>loc. map_option set (localeData st' loc)) \<and>
      (\<lambda>loc. map_option map_of (localeData st loc)) =
        (\<lambda>loc. map_option map_of (localeData st' loc)) \<and>
      addedTotal st = addedTotal st' \<and> perLocaleCounts st = perLocaleCounts st')"
proof -
  have h0: "js ''__proto__'' \<notin> set [js ''en'', js ''de'']" by (simp add: js_def)
  have h1: "set [js ''b'', js ''a''] = set [js ''a'', js ''b'']" by auto
  have h2: "set [js ''de'', js ''en''] = set [js ''en'', js ''de'']" by auto
  from reconcile_order_independent [OF h0 h1 h2] h0 h1 h2 show ?thesis by blast
qed

theorem reconcile_idempotent_witness:
  "js ''__proto__'' \<notin> set [js ''en'', js ''de''] \<and>
   (\<exists>st st2.
      reconcile [js ''a'', js ''b''] [js ''en'', js ''de''] (js ''en'') Copy example_existing = Inr st \<and>
      reconcile [js ''a'', js ''b''] [js ''en'', js ''de''] (js ''en'') Copy (dictionaries st) = Inr st2 \<and>
      localeData st2 = localeData st \<and> addedTotal st2 = 0 \<and>
      perLocaleCounts st2 = zero_counts [js ''en'', js ''de''])"
proof -
  have h0: "js ''__proto__'' \<notin> set [js ''en'', js ''de'']" by (simp add: js_def)
  from reconcile_idempotent [OF h0] h0 show ?thesis by blast
qed

text \<open>The example of the specification for reconciliation.\<close>

lemma reconcile_spec_example:
  "(case reconcile [js ''a'', js ''b''] [js ''en'', js ''de''] (js ''en'') Copy example_existing of
      Inl e \<Rightarrow> False
    | Inr st \<Rightarrow>
        localeData st (js ''en'') = Some [(js ''a'', js ''Hello''), (js ''b'', js ''b'')] \<and>
        localeData st (js ''de'') = Some [(js ''a'', js ''a''), (js ''b'', js ''b'')] \<and>
        addedTotal st = 3 \<and>
        perLocaleCounts st (js ''en'') = Some (Num 1) \<and>
        perLocaleCounts st (js ''de'') = Some (Num 2))"
  apply (simp add: reconcile_def load_all_def zero_counts_def add_missing_def has_property_def
      set_property_def new_value_def increment_def example_existing_def plain_keys)
  apply (simp add: js_def)
  done

section \<open>Properties of saveLocaleFile\<close>

lemma array_index_examples: "is_array_index (js ''10'')" "is_array_index (js ''9'')"
  by (simp_all add: is_array_index_def digits_value_def js_def is_digit_def)

lemma digits_value_examples: "digits_value (js ''10'') = 10" "digits_value (js ''9'') = 9"
  by (simp_all add: digits_value_def js_def)

lemma Object_keys_examples: "Object_keys [(js ''9'', v), (js ''10'', w)] = [js ''9'', js ''10'']"
  "Object_keys [(js ''10'', v), (js ''9'', w)] = [js ''9'', js ''10'']"
  by (simp_all add: Object_keys_def array_index_examples digits_value_examples)

lemma sorted_copy_example: "sorted_copy [(js ''9'', js ''nine''), (js ''10'', js ''ten'')] = [(js ''10'', js ''ten''), (js ''9'', js ''nine'')]"
proof -
  have "sort [js ''9'', js ''10''] = [js ''10'', js ''9'']"
    by (simp add: js_def)
  then show ?thesis
    by (simp add: sorted_copy_def Object_keys_examples set_property_def) (simp add: js_def)
qed

lemma written_keys_example: "written_keys [(js ''9'', js ''nine''), (js ''10'', js ''ten'')] = [js ''9'', js ''10'']"
  by (simp add: written_keys_def sorted_copy_example Object_keys_examples)

lemma QuoteJSONString_examples: "QuoteJSONString (js ''9'') = js ''\"9\"''" "QuoteJSONString (js ''10'') = js ''\"10\"''"
  "QuoteJSONString (js ''nine'') = js ''\"nine\"''" "QuoteJSONString (js ''ten'') = js ''\"ten\"''"
  by (simp_all add: QuoteJSONString_def js_def DQUOTE_def BACKSLASH_def is_lead_def is_trail_def)


lemma set_property_fresh:
  "k \<notin> set (map fst acc) \<Longrightarrow> k \<noteq> js ''__proto__'' \<Longrightarrow> set_property acc k v = acc @ [(k, v)]"
  by (simp add: set_property_def)

lemma copy_in_order:
  assumes "distinct (ks0 @ ks)" and "js ''__proto__'' \<notin> set ks" and "set ks \<subseteq> dom (map_of obj)"
    and "map fst acc = ks0"
  shows "map fst (foldl (\<lambda>acc k. case map_of obj k of None \<Rightarrow> acc | Some v \<Rightarrow> set_property acc k v)
           acc ks) = ks0 @ ks"
  using assms
proof (induction ks arbitrary: acc ks0)
  case Nil
  then show ?case by simp
next
  case (Cons k ks)
  from Cons.prems(3) obtain v where v: "map_of obj k = Some v" by auto
  have fresh: "set_property acc k v = acc @ [(k, v)]"
    using Cons.prems by (intro set_property_fresh) auto
  have "map fst (foldl (\<lambda>acc k. case map_of obj k of None \<Rightarrow> acc | Some v \<Rightarrow> set_property acc k v)
           (acc @ [(k, v)]) ks) = (ks0 @ [k]) @ ks"
    using Cons.prems by (intro Cons.IH) auto
  with v fresh show ?case by simp
qed

text \<open>
  Where no key is an array index or \<^verbatim>\<open>__proto__\<close>, the keys are written in strictly
  ascending order.
\<close>

lemma written_keys_sorted:
  assumes "distinct (map fst obj)" and "js ''__proto__'' \<notin> set (map fst obj)"
    and "\<And>k. k \<in> set (map fst obj) \<Longrightarrow> \<not> is_array_index k"
  shows "written_keys obj = sort (map fst obj)"
proof -
  have plain: "filter is_array_index (map fst obj) = []"
    "filter (\<lambda>k. \<not> is_array_index k) (map fst obj) = map fst obj"
    using assms(3) by (auto simp: filter_empty_conv filter_id_conv)
  then have keys: "Object_keys obj = map fst obj"
    by (simp add: Object_keys_def)
  have "map fst (sorted_copy obj) = [] @ sort (map fst obj)"
    unfolding sorted_copy_def keys
    using assms(1,2) by (intro copy_in_order) (auto simp: dom_map_of_conv_image_fst)
  then have copy: "map fst (sorted_copy obj) = sort (map fst obj)" by simp
  have "filter is_array_index (sort (map fst obj)) = []"
    "filter (\<lambda>k. \<not> is_array_index k) (sort (map fst obj)) = sort (map fst obj)"
    using assms(3) by (auto simp: filter_empty_conv filter_id_conv)
  then show ?thesis
    by (simp add: written_keys_def Object_keys_def copy)
qed

lemma written_keys_ascending:
  assumes "distinct (map fst obj)" and "js ''__proto__'' \<notin> set (map fst obj)"
    and "\<And>k. k \<in> set (map fst obj) \<Longrightarrow> \<not> is_array_index k"
  shows "sorted_wrt (<) (written_keys obj)"
proof -
  have "written_keys obj = sort (map fst obj)"
    using assms by (rule written_keys_sorted)
  with assms(1) show ?thesis
    by (simp add: strict_sorted_iff)
qed

text \<open>
  Claim C2: the keys of the written text should appear in ascending lexicographic
  order. For the dictionary \<^verbatim>\<open>{"9": "nine", "10": "ten"}\<close> the keys are sorted to
  \<^verbatim>\<open>"10"\<close>, \<^verbatim>\<open>"9"\<close> and inserted in that order, but both are array indices, which an object
  lists in numeric order: the text has \<^verbatim>\<open>"9"\<close> before \<^verbatim>\<open>"10"\<close>.
\<close>

theorem saveLocaleFile_numeric_keys:
  "saveLocaleFile [(js ''9'', js ''nine''), (js ''10'', js ''ten'')] =
     js ''{\<newline>  \"9\": \"nine\",\<newline>  \"10\": \"ten\"\<newline>}\<newline>'' \<and>
   written_keys [(js ''9'', js ''nine''), (js ''10'', js ''ten'')] = [js ''9'', js ''10''] \<and>
   js ''10'' < js ''9''"
proof -
  have "saveLocaleFile [(js ''9'', js ''nine''), (js ''10'', js ''ten'')] =
     js ''{\<newline>  \"9\": \"nine\",\<newline>  \"10\": \"ten\"\<newline>}\<newline>''"
    by (simp add: saveLocaleFile_def sorted_copy_example JSON_stringify_def JSON_members_def
          Object_keys_examples QuoteJSONString_examples)
       (simp add: js_def NEWLINE_def)
  moreover have "js ''10'' < js ''9''"
    by (simp add: js_def)
  ultimately show ?thesis
    by (simp add: written_keys_example)
qed

lemma saveLocaleFile_empty: "saveLocaleFile [] = js ''{}'' @ [NEWLINE]"
  by (simp add: saveLocaleFile_def sorted_copy_def Object_keys_def JSON_stringify_def
        JSON_members_def)

text \<open>
  Claim C10: the keys of a dictionary after reconciliation should be its keys before
  together with the discovered keys. For the discovered key \<^verbatim>\<open>constructor\<close> and an empty
  dictionary \<^verbatim>\<open>key in dict\<close> is true, because the property is inherited from
  \<^verbatim>\<open>Object.prototype\<close>: nothing is added, the dictionary stays empty, and the file
  written for the locale holds no key.
\<close>

theorem reconcile_inherited_key:
  "extractKeys (js ''__('constructor')'') = Some [js ''constructor''] \<and>
   (case reconcile [js ''constructor''] [js ''en''] (js ''en'') Copy (\<lambda>loc. []) of
      Inl e \<Rightarrow> False
    | Inr st \<Rightarrow> localeData st (js ''en'') = Some [] \<and> addedTotal st = 0 \<and>
               perLocaleCounts st (js ''en'') = Some (Num 0)) \<and>
   saveLocaleFile [] = js ''{}'' @ [NEWLINE]"
proof -
  have "extractKeys (js ''__('constructor')'') = Some [js ''constructor'']"
    by code_simp
  moreover have "js ''constructor'' \<in> set Object_prototype_keys"
    by (simp add: Object_prototype_keys_def)
  ultimately show ?thesis
    by (simp add: reconcile_state_of add_key_eq has_property_def saveLocaleFile_empty)
qed

end
